theory Spec2Isabelle
  imports Complex_Main "HOL-Library.Log_Nat"
begin

section \<open>The static dataset\<close>

text \<open>
  Both variants of the dashboard (\<^verbatim>\<open>src/src/App.jsx\<close>, with the authentication form, and
  \<^verbatim>\<open>src/unnamed/part_000\<close>, with the drug selection) start from the same literals.
  Death counts are small integer literals, so they are modelled as \<^typ>\<open>int\<close>; JavaScript
  string values are modelled as \<^typ>\<open>string\<close>.
\<close>

definition monthOrder :: "string list" where
  "monthOrder =
    [''2024-01'', ''2024-02'', ''2024-03'', ''2024-04'', ''2024-05'', ''2024-06'',
     ''2024-07'', ''2024-08'', ''2024-09'', ''2024-10'', ''2024-11'', ''2024-12'']"

text \<open>
  \<^verbatim>\<open>series\<close> is an object literal. \<^verbatim>\<open>Object.entries\<close> and \<^verbatim>\<open>Object.keys\<close> enumerate its
  (non-numeric) string keys in insertion order, so it is an association list in the order
  of the literal.
\<close>

definition series :: "(string \<times> int list) list" where
  "series =
    [(''Fentanyl'', [142, 151, 158, 161, 169, 176, 181, 187, 193, 199, 205, 212]),
     (''Heroin'', [88, 91, 93, 95, 99, 103, 104, 108, 110, 111, 113, 115]),
     (''Prescription Opioids'', [96, 98, 100, 102, 105, 108, 110, 111, 114, 116, 118, 120]),
     (''Cocaine'', [74, 76, 79, 82, 84, 86, 89, 91, 94, 96, 99, 101]),
     (''Methamphetamine'', [65, 67, 69, 72, 74, 76, 78, 81, 83, 85, 87, 90])]"

record entry =
  month :: string
  drug :: string
  deaths :: int

text \<open>
  \<^verbatim>\<open>monthOrder.flatMap((month, idx) => Object.entries(series).map(([drug, values]) =>
     ({ month, drug, deaths: values[idx] })))\<close>.
  The read \<^verbatim>\<open>values[idx]\<close> would give \<^verbatim>\<open>undefined\<close> out of range; every array of the
  literal has as many elements as \<^verbatim>\<open>monthOrder\<close> (lemma \<open>series_reads_in_range\<close> below),
  so each of the reads is in range and the table evaluates to sixty concrete rows
  (their counts are lemma \<open>overdoseData_deaths\<close>).
\<close>

definition overdoseData :: "entry list" where
  "overdoseData =
     concat (map (\<lambda>(idx, m).
               map (\<lambda>(d, values). \<lparr>month = m, drug = d, deaths = values ! idx\<rparr>) series)
             (enumerate 0 monthOrder))"

section \<open>Selection state and derived statistics (\<^verbatim>\<open>part_000\<close>)\<close>

text \<open>\<^verbatim>\<open>Object.keys(series)\<close>.\<close>

definition drugs :: "string list" where
  "drugs = map fst series"

text \<open>\<^verbatim>\<open>Array.prototype.includes\<close>: a linear search from the front.\<close>

fun includes_js :: "'a list \<Rightarrow> 'a \<Rightarrow> bool" where
  "includes_js [] x = False"
| "includes_js (y # ys) x = (if y = x then True else includes_js ys x)"

text \<open>
  \<^verbatim>\<open>overdoseData.filter((entry) => selectedDrugs.includes(entry.drug))\<close>; the selection is
  the React state \<^verbatim>\<open>selectedDrugs\<close>, an array of drug names.
\<close>

definition filtered :: "string list \<Rightarrow> entry list" where
  "filtered selectedDrugs = filter (\<lambda>e. includes_js selectedDrugs (drug e)) overdoseData"

text \<open>\<^verbatim>\<open>xs.reduce((sum, entry) => sum + entry.deaths, 0)\<close>: a left fold from 0.\<close>

definition reduce_deaths :: "entry list \<Rightarrow> int" where
  "reduce_deaths xs = foldl (\<lambda>sum e. sum + deaths e) 0 xs"

record total_row =
  row_month :: string
  total :: int

definition months :: "string list" where
  "months = monthOrder"

definition totalsByMonth :: "string list \<Rightarrow> total_row list" where
  "totalsByMonth selectedDrugs =
     map (\<lambda>m. \<lparr>row_month = m,
               total = reduce_deaths (filter (\<lambda>e. month e = m) (filtered selectedDrugs))\<rparr>)
         months"

definition grandTotal :: "string list \<Rightarrow> int" where
  "grandTotal selectedDrugs = reduce_deaths (filtered selectedDrugs)"

text \<open>
  \<^verbatim>\<open>if (!filtered.length) return 1; return Math.max(...filtered.map((d) => d.deaths))\<close>:
  the value that \<^verbatim>\<open>App\<close> passes to the chart as its \<^verbatim>\<open>maxValue\<close> prop.
\<close>

definition maxValue_App :: "string list \<Rightarrow> int" where
  "maxValue_App selectedDrugs =
     (case map deaths (filtered selectedDrugs) of
        [] \<Rightarrow> 1
      | d # ds \<Rightarrow> foldl max d ds)"

text \<open>
  \<^verbatim>\<open>Math.round\<close> gives the nearest integer, the larger one at a tie. The quotient
  \<^verbatim>\<open>grandTotal / months.length\<close> is taken over the rationals: numerator and denominator
  are small integers.
\<close>

definition Math_round :: "rat \<Rightarrow> int" where
  "Math_round x = \<lfloor>x + 1 / 2\<rfloor>"

definition avgMonthly :: "string list \<Rightarrow> int" where
  "avgMonthly selectedDrugs =
     (if length months \<noteq> 0
      then Math_round (of_int (grandTotal selectedDrugs) / of_nat (length months))
      else 0)"

text \<open>
  \<^verbatim>\<open>setSelectedDrugs((prev) => (prev.includes(drug) ? prev.filter((d) => d !== drug)
     : [...prev, drug]))\<close>
\<close>

definition handleToggle :: "string \<Rightarrow> string list \<Rightarrow> string list" where
  "handleToggle d prev =
     (if includes_js prev d then filter (\<lambda>x. x \<noteq> d) prev else prev @ [d])"

text \<open>
  The three controls that change the selection: a checkbox (\<^verbatim>\<open>handleToggle(drug)\<close>),
  "Select all" (\<^verbatim>\<open>setSelectedDrugs(drugs)\<close>) and "Clear" (\<^verbatim>\<open>setSelectedDrugs([])\<close>).
\<close>

datatype action = Toggle string | SelectAll | Clear

fun dispatch :: "string list \<Rightarrow> action \<Rightarrow> string list" where
  "dispatch prev (Toggle d) = handleToggle d prev"
| "dispatch prev SelectAll = drugs"
| "dispatch prev Clear = []"

text \<open>\<^verbatim>\<open>useState(drugs)\<close>: the selection starts as every known drug.\<close>

definition initialSelection :: "string list" where
  "initialSelection = drugs"

definition run :: "action list \<Rightarrow> string list" where
  "run acts = foldl dispatch initialSelection acts"

text \<open>A checkbox exists only for the names of \<^verbatim>\<open>drugs\<close>.\<close>

fun known_action :: "action \<Rightarrow> bool" where
  "known_action (Toggle d) = includes_js drugs d"
| "known_action SelectAll = True"
| "known_action Clear = True"

section \<open>JavaScript numbers\<close>

text \<open>
  The chart computes its coordinates with JavaScript numbers, which are IEEE 754 binary64
  values. A number is a finite double, one of the two infinities, or \<^verbatim>\<open>NaN\<close>. A finite
  double is given by its exact value, a rational; each arithmetic operation computes the
  exact result and rounds it to the nearest double, ties to the even significand, and
  gives an infinity when the rounded magnitude reaches \<open>2 ^ 1024\<close>.

  The sign of a zero is not modelled: \<^verbatim>\<open>-0\<close> and \<^verbatim>\<open>+0\<close> are both \<open>Finite 0\<close>. They are equal
  under \<^verbatim>\<open>>\<close> and under the arithmetic used here, and differ only as divisors; a
  division by \<open>Finite 0\<close> takes the zero as \<^verbatim>\<open>+0\<close>.
\<close>

datatype number = Finite rat | PosInfinity | NegInfinity | NaN

text \<open>
  \<open>floor_log2 x\<close> is the binary exponent of a positive rational: the \<open>k\<close> with
  \<open>2 ^ k \<le> x < 2 ^ (k + 1)\<close> (lemma \<open>floor_log2_bounds\<close>).
\<close>

definition floor_log2 :: "rat \<Rightarrow> int" where
  "floor_log2 x = (if 1 \<le> x then bitlen \<lfloor>x\<rfloor> - 1 else - bitlen (\<lceil>1 / x\<rceil> - 1))"

definition round_half_even :: "rat \<Rightarrow> int" where
  "round_half_even r =
     (let n = \<lfloor>r\<rfloor>; f = r - of_int n in
      if f < 1 / 2 then n else if 1 / 2 < f then n + 1 else if even n then n else n + 1)"

text \<open>
  The distance between neighbouring doubles around a non-zero \<open>x\<close>: 52 fraction bits
  below the binary exponent of \<open>x\<close>, and \<open>2 ^ -1074\<close> throughout the subnormal range.
\<close>

definition quantum :: "rat \<Rightarrow> rat" where
  "quantum x = 2 powi (max (floor_log2 \<bar>x\<bar>) (- 1022) - 52)"

definition round64 :: "rat \<Rightarrow> number" where
  "round64 x =
     (if x = 0 then Finite 0
      else let y = of_int (round_half_even (x / quantum x)) * quantum x in
           if 2 ^ 1024 \<le> \<bar>y\<bar> then (if 0 < x then PosInfinity else NegInfinity)
           else Finite y)"

fun js_neg :: "number \<Rightarrow> number" where
  "js_neg (Finite a) = Finite (- a)"
| "js_neg PosInfinity = NegInfinity"
| "js_neg NegInfinity = PosInfinity"
| "js_neg NaN = NaN"

definition infinity_of :: "bool \<Rightarrow> number" where
  "infinity_of negative = (if negative then NegInfinity else PosInfinity)"

fun is_negative :: "number \<Rightarrow> bool" where
  "is_negative (Finite a) = (a < 0)"
| "is_negative PosInfinity = False"
| "is_negative NegInfinity = True"
| "is_negative NaN = False"

text \<open>\<^verbatim>\<open>a + b\<close>\<close>

fun js_add :: "number \<Rightarrow> number \<Rightarrow> number" where
  "js_add (Finite a) (Finite b) = round64 (a + b)"
| "js_add NaN _ = NaN"
| "js_add _ NaN = NaN"
| "js_add PosInfinity NegInfinity = NaN"
| "js_add NegInfinity PosInfinity = NaN"
| "js_add PosInfinity _ = PosInfinity"
| "js_add _ PosInfinity = PosInfinity"
| "js_add NegInfinity _ = NegInfinity"
| "js_add _ NegInfinity = NegInfinity"

text \<open>\<^verbatim>\<open>a - b\<close>\<close>

definition js_sub :: "number \<Rightarrow> number \<Rightarrow> number" where
  "js_sub a b = js_add a (js_neg b)"

text \<open>\<^verbatim>\<open>a * b\<close>: an infinity times zero is \<^verbatim>\<open>NaN\<close>.\<close>

fun js_mul :: "number \<Rightarrow> number \<Rightarrow> number" where
  "js_mul (Finite a) (Finite b) = round64 (a * b)"
| "js_mul NaN _ = NaN"
| "js_mul _ NaN = NaN"
| "js_mul a b =
     (if a = Finite 0 \<or> b = Finite 0 then NaN
      else infinity_of (is_negative a \<noteq> is_negative b))"

text \<open>
  \<^verbatim>\<open>a / b\<close>: a finite number divided by zero is an infinity, or \<^verbatim>\<open>NaN\<close> for \<^verbatim>\<open>0 / 0\<close>; a
  finite number divided by an infinity is zero; an infinity divided by an infinity is
  \<^verbatim>\<open>NaN\<close>.
\<close>

fun js_div :: "number \<Rightarrow> number \<Rightarrow> number" where
  "js_div NaN _ = NaN"
| "js_div _ NaN = NaN"
| "js_div (Finite a) (Finite b) =
     (if b = 0 then (if a = 0 then NaN else infinity_of (a < 0)) else round64 (a / b))"
| "js_div (Finite a) _ = Finite 0"
| "js_div a (Finite b) = infinity_of (is_negative a \<noteq> (b < 0))"
| "js_div _ _ = NaN"

text \<open>\<^verbatim>\<open>a > b\<close>: false whenever an operand is \<^verbatim>\<open>NaN\<close>.\<close>

fun js_gt :: "number \<Rightarrow> number \<Rightarrow> bool" where
  "js_gt NaN _ = False"
| "js_gt _ NaN = False"
| "js_gt (Finite a) (Finite b) = (b < a)"
| "js_gt PosInfinity b = (b \<noteq> PosInfinity)"
| "js_gt a NegInfinity = (a \<noteq> NegInfinity)"
| "js_gt _ _ = False"

section \<open>Chart geometry (\<^verbatim>\<open>Chart\<close>, the same in both variants)\<close>

definition width :: number where
  "width = Finite 960"

definition height :: number where
  "height = Finite 420"

text \<open>\<^verbatim>\<open>const margin = { top: 32, right: 32, bottom: 72, left: 64 }\<close>\<close>

definition margin_top :: number where
  "margin_top = Finite 32"

definition margin_right :: number where
  "margin_right = Finite 32"

definition margin_bottom :: number where
  "margin_bottom = Finite 72"

definition margin_left :: number where
  "margin_left = Finite 64"

text \<open>\<^verbatim>\<open>width - margin.left - margin.right\<close> and \<^verbatim>\<open>height - margin.top - margin.bottom\<close>\<close>

definition plotWidth :: number where
  "plotWidth = js_sub (js_sub width margin_left) margin_right"

definition plotHeight :: number where
  "plotHeight = js_sub (js_sub height margin_top) margin_bottom"

text \<open>The divisor of the y-scale, \<^verbatim>\<open>(maxValue > 0 ? maxValue : 1)\<close>.\<close>

definition scale_divisor :: "number \<Rightarrow> number" where
  "scale_divisor maxValue = (if js_gt maxValue (Finite 0) then maxValue else Finite 1)"

text \<open>
  \<^verbatim>\<open>const yPos = (val) =>
     margin.top + plotHeight - (plotHeight * val) / (maxValue > 0 ? maxValue : 1)\<close>,
  a closure over the prop \<^verbatim>\<open>maxValue\<close>, which is the first argument here.
\<close>

definition yPos :: "number \<Rightarrow> number \<Rightarrow> number" where
  "yPos maxValue val =
     js_sub (js_add margin_top plotHeight)
       (js_div (js_mul plotHeight val) (scale_divisor maxValue))"

section \<open>Authentication handlers (\<^verbatim>\<open>src/src/App.jsx\<close>)\<close>

text \<open>
  The identity service is outside the repository, so what a call to it does is a
  parameter of the model: the awaited promise either resolves, or rejects with an error
  object, of which the handlers read the \<^verbatim>\<open>message\<close>.
\<close>

datatype outcome = Resolved | Rejected string

text \<open>The component's \<^verbatim>\<open>useState\<close> cells that the form and the handlers use.\<close>

record auth_state =
  user :: "string option"
  authLoading :: bool
  authError :: string
  email :: string
  password :: string

text \<open>
  Each handler is an \<^verbatim>\<open>async\<close> function: it returns how its own promise settles,
  together with the state it leaves. A rejection that a handler catches resolves the
  handler's promise; one that it does not catch rejects it.

  \<^verbatim>\<open>const handleRegister = async () => {
    setAuthError('')
    try { await createUserWithEmailAndPassword(auth, email, password) }
    catch (err) { setAuthError(err.message) } }\<close>
\<close>

definition handleRegister ::
  "(string \<Rightarrow> string \<Rightarrow> outcome) \<Rightarrow> auth_state \<Rightarrow> outcome \<times> auth_state" where
  "handleRegister createUserWithEmailAndPassword s =
     (let s1 = s\<lparr>authError := ''''\<rparr> in
      case createUserWithEmailAndPassword (email s) (password s) of
        Resolved \<Rightarrow> (Resolved, s1)
      | Rejected message \<Rightarrow> (Resolved, s1\<lparr>authError := message\<rparr>))"

text \<open>
  \<^verbatim>\<open>const handleLogin = async () => {
    setAuthError('')
    try { await signInWithEmailAndPassword(auth, email, password) }
    catch (err) { setAuthError(err.message) } }\<close>
\<close>

definition handleLogin ::
  "(string \<Rightarrow> string \<Rightarrow> outcome) \<Rightarrow> auth_state \<Rightarrow> outcome \<times> auth_state" where
  "handleLogin signInWithEmailAndPassword s =
     (let s1 = s\<lparr>authError := ''''\<rparr> in
      case signInWithEmailAndPassword (email s) (password s) of
        Resolved \<Rightarrow> (Resolved, s1)
      | Rejected message \<Rightarrow> (Resolved, s1\<lparr>authError := message\<rparr>))"

text \<open>
  \<^verbatim>\<open>const handleLogout = async () => { await signOut(auth) }\<close>: no \<^verbatim>\<open>try\<close>, and no
  write to \<^verbatim>\<open>authError\<close>. \<^verbatim>\<open>signOut\<close> takes neither email nor password.
\<close>

definition handleLogout :: "outcome \<Rightarrow> auth_state \<Rightarrow> outcome \<times> auth_state" where
  "handleLogout signOut s =
     (case signOut of
        Resolved \<Rightarrow> (Resolved, s)
      | Rejected message \<Rightarrow> (Rejected message, s))"

text \<open>
  The error display area: \<^verbatim>\<open>{authError ? <p className="error">{authError}</p> : null}\<close>,
  inside the branch of \<^verbatim>\<open>user ? ... : ...\<close> that is rendered when nobody is signed in.
\<close>

definition displayedError :: "auth_state \<Rightarrow> string option" where
  "displayedError s =
     (if user s = None \<and> authError s \<noteq> [] then Some (authError s) else None)"

text \<open>A session in which a user is signed in, so that the "Log Out" button is on the page.\<close>

definition signedInState :: auth_state where
  "signedInState =
     \<lparr>user = Some ''uid-1'', authLoading = False, authError = '''',
      email = ''you@example.com'', password = ''secret''\<rparr>"

section \<open>Basic facts\<close>

lemma includes_set: "includes_js xs x \<longleftrightarrow> x \<in> set xs"
  by (induction xs) auto

lemma reduce_deaths_sum: "reduce_deaths xs = sum_list (map deaths xs)"
proof -
  have "foldl (\<lambda>sum e. sum + deaths e) a xs = a + sum_list (map deaths xs)" for a
    by (induction xs arbitrary: a) simp_all
  then show ?thesis by (simp add: reduce_deaths_def)
qed

lemma series_reads_in_range:
  "\<forall>(d, values) \<in> set series. \<forall>(idx, m) \<in> set (enumerate 0 monthOrder). idx < length values"
  by (simp add: series_def monthOrder_def)

lemma overdoseData_deaths:
  "map deaths overdoseData =
     [142, 88, 96, 74, 65,
      151, 91, 98, 76, 67,
      158, 93, 100, 79, 69,
      161, 95, 102, 82, 72,
      169, 99, 105, 84, 74,
      176, 103, 108, 86, 76,
      181, 104, 110, 89, 78,
      187, 108, 111, 91, 81,
      193, 110, 114, 94, 83,
      199, 111, 116, 96, 85,
      205, 113, 118, 99, 87,
      212, 115, 120, 101, 90]"
  by (simp add: overdoseData_def series_def monthOrder_def)

lemma series_shape: "length (concat (map snd series)) = 60"
  by (simp add: series_def)

lemma series_sum: "sum_list (concat (map snd series)) = 6640"
  by (simp add: series_def)

lemma length_months: "length months = 12"
  by (simp add: months_def monthOrder_def)

lemma distinct_monthOrder: "distinct monthOrder"
  by (simp add: monthOrder_def)

lemma month_in_monthOrder: "e \<in> set overdoseData \<Longrightarrow> month e \<in> set monthOrder"
  by (auto simp: overdoseData_def in_set_enumerate_eq)

lemma drug_in_drugs: "e \<in> set overdoseData \<Longrightarrow> drug e \<in> set drugs"
  by (force simp: overdoseData_def drugs_def in_set_enumerate_eq)

text \<open>The filtered rows depend on the selection array only through its set of names.\<close>

lemma filtered_set_cong: "set S = set T \<Longrightarrow> filtered S = filtered T"
  by (simp add: filtered_def includes_set)

lemma grandTotal_drugs: "grandTotal drugs = 6640"
  by code_simp

lemma handleToggle_set:
  "set (handleToggle d prev) = (if d \<in> set prev then set prev - {d} else insert d (set prev))"
  by (auto simp: handleToggle_def includes_set)

section \<open>Authentication errors\<close>

text \<open>
  The two handlers of the sign-in form catch a rejection and store its message, whatever
  the email and the password are.
\<close>

lemma handleRegister_rejection:
  "svc (email s) (password s) = Rejected msg \<Longrightarrow>
     handleRegister svc s = (Resolved, s\<lparr>authError := msg\<rparr>)"
  by (simp add: handleRegister_def)

lemma handleLogin_rejection:
  "svc (email s) (password s) = Rejected msg \<Longrightarrow>
     handleLogin svc s = (Resolved, s\<lparr>authError := msg\<rparr>)"
  by (simp add: handleLogin_def)

lemma displayedError_after_rejection:
  "user s = None \<Longrightarrow> msg \<noteq> [] \<Longrightarrow> displayedError (s\<lparr>authError := msg\<rparr>) = Some msg"
  by (simp add: displayedError_def)

text \<open>
  C1 (every rejection of create account, sign in and sign out is caught and its message
  becomes the displayed error string) does not hold of sign out. With a user signed in and
  \<^verbatim>\<open>signOut\<close> rejecting with a network error, \<^verbatim>\<open>handleLogout\<close> lets the rejection escape
  (its own promise rejects), leaves \<^verbatim>\<open>authError\<close> empty, and nothing is displayed.
\<close>

theorem handleLogout_rejection_not_surfaced:
  "handleLogout (Rejected ''Firebase: Error (auth/network-request-failed).'') signedInState
     = (Rejected ''Firebase: Error (auth/network-request-failed).'', signedInState)
   \<and> authError (snd (handleLogout
         (Rejected ''Firebase: Error (auth/network-request-failed).'') signedInState)) = ''''
   \<and> displayedError (snd (handleLogout
         (Rejected ''Firebase: Error (auth/network-request-failed).'') signedInState)) = None"
  by (simp add: handleLogout_def signedInState_def displayedError_def)

section \<open>Selection\<close>

text \<open>
  C2: for every selection and every drug name (in particular every known one), toggling
  the drug twice in succession gives a selection with the same set of names as before.
  The array itself may change: a name toggled off and on again moves to the end.
\<close>

theorem toggle_twice_same_set:
  "set (handleToggle d (handleToggle d prev)) = set prev"
  by (auto simp: handleToggle_set)

text \<open>
  C3: for every selection \<open>S\<close>, the number of filtered rows is the number of rows of the
  dataset (counted by position) whose drug is a member of \<open>S\<close>.
\<close>

theorem filtered_count:
  "length (filtered S) =
     card {i. i < length overdoseData \<and> drug (overdoseData ! i) \<in> set S}"
  by (simp add: filtered_def includes_set length_filter_conv_card)

section \<open>Rounding to a double\<close>

lemma powi_neg: "0 \<le> n \<Longrightarrow> (2::rat) powi (- n) = 1 / 2 ^ nat n"
  using power_int_minus_divide [of "2::rat" n] by (simp add: power_int_def)

lemma powi_add2: "(2::rat) powi (a + b) = 2 powi a * 2 powi b"
  by (rule power_int_add) simp

lemma powi_le_exp: "(2::rat) powi a \<le> 2 powi b \<Longrightarrow> a \<le> b"
  using power_int_strict_increasing [of b a "2::rat"] by (cases "a \<le> b") auto

lemma powi_less_exp: "(2::rat) powi a < 2 powi b \<Longrightarrow> a < b"
  using power_int_increasing [of b a "2::rat"] by (cases "a < b") auto

lemma floor_log2_ge1:
  assumes "1 \<le> x"
  shows "2 powi (floor_log2 x) \<le> x \<and> x < 2 powi (floor_log2 x + 1)"
proof -
  define n where "n = \<lfloor>x\<rfloor>"
  have n: "1 \<le> n" "of_int n \<le> x" "x < of_int n + 1"
    using assms floor_correct [of x] by (simp_all add: n_def le_floor_iff)
  then have pos: "0 < n" by simp
  have b: "1 \<le> bitlen n"
    using pos bitlen_eq_zero_iff [of n] bitlen_nonneg [of n] by linarith
  from bitlen_bounds [OF pos]
  have lo: "2 ^ nat (bitlen n - 1) \<le> n" and hi: "n + 1 \<le> 2 ^ nat (bitlen n)" by simp_all
  have fl: "floor_log2 x = bitlen n - 1"
    using assms by (simp add: floor_log2_def n_def)
  have "(2::rat) powi (bitlen n - 1) = of_int (2 ^ nat (bitlen n - 1))"
    using b by (simp add: power_int_def)
  also have "\<dots> \<le> of_int n" using lo by (simp only: of_int_le_iff)
  finally have 1: "(2::rat) powi (bitlen n - 1) \<le> x" using n(2) by simp
  have "x < of_int (n + 1)" using n(3) by simp
  also have "\<dots> \<le> of_int (2 ^ nat (bitlen n))" using hi by (simp only: of_int_le_iff)
  also have "\<dots> = (2::rat) powi (bitlen n)"
    using b by (simp add: power_int_def)
  finally have 2: "x < (2::rat) powi (bitlen n - 1 + 1)" by simp
  show ?thesis unfolding fl using 1 2 by simp
qed

lemma floor_log2_lt1:
  assumes "0 < x" "x < 1"
  shows "2 powi (floor_log2 x) \<le> x \<and> x < 2 powi (floor_log2 x + 1)"
proof -
  define m where "m = \<lceil>1 / x\<rceil> - 1"
  have y: "1 < 1 / x" using assms by simp
  have m: "1 \<le> m" "of_int m < 1 / x" "1 / x \<le> of_int m + 1"
    using y ceiling_correct [of "1 / x"] by (simp_all add: m_def less_ceiling_iff)
  then have pos: "0 < m" by simp
  have b: "1 \<le> bitlen m"
    using pos bitlen_eq_zero_iff [of m] bitlen_nonneg [of m] by linarith
  from bitlen_bounds [OF pos]
  have lo: "2 ^ nat (bitlen m - 1) \<le> m" and hi: "m + 1 \<le> 2 ^ nat (bitlen m)" by simp_all
  have fl: "floor_log2 x = - bitlen m"
    using assms by (simp add: floor_log2_def m_def)
  have "1 / x \<le> of_int (m + 1)" using m(3) by simp
  also have "\<dots> \<le> of_int (2 ^ nat (bitlen m))" using hi by (simp only: of_int_le_iff)
  finally have "1 / x \<le> 2 ^ nat (bitlen m)" by (simp only: of_int_power of_int_numeral)
  then have "1 / 2 ^ nat (bitlen m) \<le> x"
    using assms(1) by (simp add: field_simps)
  moreover have "(2::rat) powi (- bitlen m) = 1 / 2 ^ nat (bitlen m)"
    using b by (simp add: powi_neg)
  ultimately have 1: "(2::rat) powi (- bitlen m) \<le> x" by simp
  have "(of_int (2 ^ nat (bitlen m - 1)) :: rat) \<le> of_int m"
    using lo by (simp only: of_int_le_iff)
  also have "\<dots> < 1 / x" by (rule m(2))
  finally have "(2::rat) ^ nat (bitlen m - 1) < 1 / x"
    by (simp only: of_int_power of_int_numeral)
  then have "x < 1 / 2 ^ nat (bitlen m - 1)"
    using assms(1) by (simp add: field_simps)
  moreover have "(2::rat) powi (- bitlen m + 1) = 1 / 2 ^ nat (bitlen m - 1)"
    using b powi_neg [of "bitlen m - 1"] by simp
  ultimately have 2: "x < (2::rat) powi (- bitlen m + 1)" by simp
  show ?thesis unfolding fl using 1 2 by simp
qed

lemma floor_log2_bounds:
  "0 < x \<Longrightarrow> 2 powi (floor_log2 x) \<le> x \<and> x < 2 powi (floor_log2 x + 1)"
  using floor_log2_ge1 [of x] floor_log2_lt1 [of x] by (cases "1 \<le> x") simp_all

lemma floor_log2_unique:
  assumes "2 powi k \<le> x" "x < 2 powi (k + 1)"
  shows "floor_log2 x = k"
proof -
  have pos: "0 < x"
    using assms(1) zero_less_power_int [of "2::rat" k] by linarith
  from floor_log2_bounds [OF pos]
  have lo: "2 powi (floor_log2 x) \<le> x" and hi: "x < 2 powi (floor_log2 x + 1)" by simp_all
  have "(2::rat) powi k < 2 powi (floor_log2 x + 1)" using assms(1) hi by linarith
  then have 1: "k < floor_log2 x + 1" by (rule powi_less_exp)
  have "(2::rat) powi (floor_log2 x) < 2 powi (k + 1)" using assms(2) lo by linarith
  then have 2: "floor_log2 x < k + 1" by (rule powi_less_exp)
  from 1 2 show ?thesis by simp
qed

lemma round_half_even_of_int: "round_half_even (of_int n) = n"
  by (simp add: round_half_even_def)

lemma round_half_even_unique:
  "of_int n - 1 / 2 < r \<Longrightarrow> r < of_int n + 1 / 2 \<Longrightarrow> round_half_even r = n"
  unfolding round_half_even_def Let_def by (auto; linarith)

lemma round_half_even_tie:
  "r = of_int n + 1 / 2 \<Longrightarrow> round_half_even r = (if even n then n else n + 1)"
proof -
  assume r: "r = of_int n + 1 / 2"
  then have "\<lfloor>r\<rfloor> = n" by (simp add: floor_eq_iff)
  then show ?thesis using r by (simp add: round_half_even_def Let_def)
qed

lemma round_half_even_ge: "of_int N \<le> r \<Longrightarrow> N \<le> round_half_even r"
proof -
  assume "of_int N \<le> r"
  then have "N \<le> \<lfloor>r\<rfloor>" by (simp add: le_floor_iff)
  then show ?thesis by (auto simp: round_half_even_def Let_def)
qed

lemma round_half_even_le: "r \<le> of_int N \<Longrightarrow> round_half_even r \<le> N"
proof (cases "r = of_int N")
  case True
  then show ?thesis by (simp add: round_half_even_of_int)
next
  case False
  assume "r \<le> of_int N"
  with False have "r < of_int N" by simp
  then have "\<lfloor>r\<rfloor> < N" by (simp add: floor_less_iff)
  then show ?thesis by (auto simp: round_half_even_def Let_def)
qed

lemma round_half_even_abs_le: "\<bar>r\<bar> \<le> of_int N \<Longrightarrow> \<bar>round_half_even r\<bar> \<le> N"
  using round_half_even_le [of r N] round_half_even_ge [of "- N" r]
  by (auto simp: abs_le_iff)

lemma quantum_pos: "0 < quantum x"
  by (simp add: quantum_def)

lemma quantum_eq:
  "2 powi k \<le> \<bar>x\<bar> \<Longrightarrow> \<bar>x\<bar> < 2 powi (k + 1) \<Longrightarrow>
     quantum x = 2 powi (max k (- 1022) - 52)"
  by (simp add: quantum_def floor_log2_unique)

text \<open>A rational that is a whole multiple of its quantum and below \<open>2 ^ 1024\<close> is a double.\<close>

lemma round64_exact:
  assumes "x / quantum x = of_int n" and "\<bar>x\<bar> < 2 ^ 1024"
  shows "round64 x = Finite x"
proof (cases "x = 0")
  case True
  then show ?thesis by (simp add: round64_def)
next
  case False
  have "of_int n * quantum x = x"
    using assms(1) quantum_pos [of x] by (simp add: field_simps)
  with assms(2) False show ?thesis
    by (simp add: round64_def Let_def assms(1) round_half_even_of_int)
qed

text \<open>Every integer of magnitude below \<open>2 ^ 53\<close> is a double.\<close>

lemma round64_int:
  assumes "\<bar>n\<bar> < 2 ^ 53"
  shows "round64 (of_int n) = Finite (of_int n)"
proof (cases "n = 0")
  case True
  then show ?thesis by (simp add: round64_def)
next
  case False
  define x :: rat where "x = of_int n"
  define k where "k = floor_log2 \<bar>x\<bar>"
  have a1: "1 \<le> \<bar>x\<bar>" using False by (simp add: x_def flip: of_int_abs)
  have a2: "\<bar>x\<bar> < 2 powi 53"
    using assms unfolding x_def
    by (simp flip: of_int_abs add: of_int_less_numeral_power_cancel_iff)
  have pos: "0 < \<bar>x\<bar>" using a1 by linarith
  from floor_log2_bounds [OF pos]
  have lo: "2 powi k \<le> \<bar>x\<bar>" and hi: "\<bar>x\<bar> < 2 powi (k + 1)" by (simp_all add: k_def)
  have "(2::rat) powi k < 2 powi 53" using lo a2 by linarith
  then have k53: "k < 53" by (rule powi_less_exp)
  have "(2::rat) powi 0 < 2 powi (k + 1)" using a1 hi by simp
  then have k0: "0 \<le> k" using powi_less_exp [of 0 "k + 1"] by simp
  have q: "quantum x = 2 powi (- (52 - k))"
    using k0 by (simp add: quantum_def k_def [symmetric] max_def)
  have q': "quantum x = 1 / 2 ^ nat (52 - k)"
    unfolding q using k53 by (intro powi_neg) simp
  have "x / quantum x = x * 2 ^ nat (52 - k)"
    by (simp add: q')
  also have "\<dots> = of_int (n * 2 ^ nat (52 - k))"
    by (simp add: x_def)
  finally have "x / quantum x = of_int (n * 2 ^ nat (52 - k))" .
  moreover have "\<bar>x\<bar> < 2 ^ 1024"
  proof -
    have "\<bar>x\<bar> < 2 ^ 53" using a2 by simp
    also have "(2::rat) ^ 53 \<le> 2 ^ 1024" by (rule power_increasing) simp_all
    finally show ?thesis .
  qed
  ultimately show ?thesis unfolding x_def [symmetric] by (rule round64_exact)
qed

lemma round64_numeral:
  "numeral w < (2::int) ^ 53 \<Longrightarrow> round64 (numeral w) = Finite (numeral w)"
  using round64_int [of "numeral w"] by simp

lemma round64_neg_numeral:
  "numeral w < (2::int) ^ 53 \<Longrightarrow> round64 (- numeral w) = Finite (- numeral w)"
  using round64_int [of "- numeral w"] by simp

text \<open>Rounding does not leave a binade: a bound that is a power of two is kept.\<close>

lemma round64_bound:
  assumes "\<bar>x\<bar> \<le> 2 ^ k" and "k \<le> 1023"
  shows "\<exists>y. round64 x = Finite y \<and> \<bar>y\<bar> \<le> 2 ^ k"
proof (cases "x = 0")
  case True
  then show ?thesis by (simp add: round64_def)
next
  case False
  define e where "e = max (floor_log2 \<bar>x\<bar>) (- 1022) - 52"
  define q :: rat where "q = 2 powi e"
  define N :: int where "N = 2 ^ nat (int k - e)"
  define n where "n = round_half_even (x / q)"
  have pos: "0 < \<bar>x\<bar>" using False by simp
  have qx: "quantum x = q" by (simp add: quantum_def q_def e_def)
  have qpos: "0 < q" by (simp add: q_def)
  from floor_log2_bounds [OF pos] have "2 powi (floor_log2 \<bar>x\<bar>) \<le> \<bar>x\<bar>" by simp
  with assms(1) have "(2::rat) powi (floor_log2 \<bar>x\<bar>) \<le> 2 powi (int k)" by simp
  then have "floor_log2 \<bar>x\<bar> \<le> int k" by (rule powi_le_exp)
  then have ek: "0 \<le> int k - e" by (simp add: e_def)
  have Nq: "of_int N * q = 2 ^ k"
  proof -
    have "of_int N = (2::rat) powi (int k - e)"
      using ek by (simp add: N_def power_int_def)
    then have "of_int N * q = (2::rat) powi (int k - e + e)"
      unfolding q_def by (simp only: powi_add2)
    then show ?thesis by simp
  qed
  have "\<bar>x / q\<bar> = \<bar>x\<bar> / q" using qpos by simp
  also have "\<dots> \<le> 2 ^ k / q" using assms(1) qpos by (simp add: divide_right_mono)
  also have "\<dots> = of_int N" using Nq qpos by (simp add: field_simps)
  finally have "\<bar>n\<bar> \<le> N" unfolding n_def by (rule round_half_even_abs_le)
  then have "\<bar>of_int n :: rat\<bar> \<le> of_int N" by (simp flip: of_int_abs)
  then have "\<bar>of_int n * q\<bar> \<le> of_int N * q"
    using qpos by (simp add: abs_mult mult_right_mono)
  then have yb: "\<bar>of_int n * q\<bar> \<le> 2 ^ k" by (simp only: Nq)
  have "(2::rat) ^ k < 2 ^ 1024" using assms(2) by (intro power_strict_increasing) simp_all
  with yb have "\<not> 2 ^ 1024 \<le> \<bar>of_int n * q\<bar>" by linarith
  then have "round64 x = Finite (of_int n * q)"
    using False by (simp add: round64_def Let_def qx n_def)
  with yb show ?thesis by simp
qed

text \<open>An exact result of magnitude \<open>2 ^ 1024\<close> or more overflows.\<close>

lemma round64_overflow:
  assumes "2 ^ 1024 \<le> \<bar>x\<bar>"
  shows "round64 x = (if 0 < x then PosInfinity else NegInfinity)"
proof -
  define k where "k = floor_log2 \<bar>x\<bar>"
  define q :: rat where "q = 2 powi (k - 52)"
  define n where "n = round_half_even (x / q)"
  have "(0::rat) < 2 ^ 1024" by simp
  with assms have pos: "0 < \<bar>x\<bar>" by linarith
  then have nz: "x \<noteq> 0" by simp
  from floor_log2_bounds [OF pos]
  have lo: "2 powi k \<le> \<bar>x\<bar>" and hi: "\<bar>x\<bar> < 2 powi (k + 1)" by (simp_all add: k_def)
  have "(2::rat) powi 1024 < 2 powi (k + 1)" using assms hi by simp
  then have k: "1024 \<le> k" using powi_less_exp [of 1024 "k + 1"] by simp
  have qx: "quantum x = q"
    using k by (simp add: quantum_def q_def k_def [symmetric] max_def)
  have qpos: "0 < q" by (simp add: q_def)
  have q52: "of_int (2 ^ 52) * q = 2 powi k"
  proof -
    have "of_int (2 ^ 52) * q = (2::rat) powi 52 * 2 powi (k - 52)" by (simp add: q_def)
    also have "\<dots> = 2 powi (52 + (k - 52))" by (simp only: powi_add2)
    finally show ?thesis by simp
  qed
  have big: "(2::rat) ^ 1024 \<le> 2 powi k"
    using k power_int_increasing [of 1024 k "2::rat"] by simp
  have "of_int (2 ^ 52) \<le> \<bar>x\<bar> / q"
    using lo qpos q52 by (simp add: field_simps)
  then have ax: "of_int (2 ^ 52) \<le> \<bar>x / q\<bar>" using qpos by simp
  have "2 ^ 52 \<le> \<bar>n\<bar>"
  proof (cases "0 < x")
    case True
    then have "of_int (2 ^ 52) \<le> x / q" using ax qpos by simp
    then have "2 ^ 52 \<le> n" unfolding n_def by (rule round_half_even_ge)
    then show ?thesis by simp
  next
    case False
    with nz have "x < 0" by simp
    then have "x / q < 0" using qpos by (simp add: divide_neg_pos)
    then have "\<bar>x / q\<bar> = - (x / q)" by (rule abs_of_neg)
    with ax have "x / q \<le> - of_int (2 ^ 52)" by linarith
    then have "x / q \<le> of_int (- (2 ^ 52))" by simp
    then have "n \<le> - (2 ^ 52)" unfolding n_def by (rule round_half_even_le)
    then show ?thesis by simp
  qed
  then have "(of_int (2 ^ 52) :: rat) \<le> \<bar>of_int n\<bar>"
    by (simp only: of_int_le_iff flip: of_int_abs)
  then have "of_int (2 ^ 52) * q \<le> \<bar>of_int n\<bar> * q"
    using qpos by (simp only: mult_le_cancel_right_pos)
  then have "2 powi k \<le> \<bar>of_int n * q\<bar>"
    using qpos by (simp only: q52 abs_mult abs_of_pos)
  with big have "2 ^ 1024 \<le> \<bar>of_int n * q\<bar>" by linarith
  then show ?thesis using nz by (simp add: round64_def Let_def qx n_def)
qed

text \<open>Rounding a given rational, from its binary exponent and the rounded significand.\<close>

lemma round64_eval_significand:
  assumes "2 powi k \<le> \<bar>x\<bar>" and "\<bar>x\<bar> < 2 powi (k + 1)" and "- 1022 \<le> k"
    and "round_half_even (x / 2 powi (k - 52)) = n"
    and "\<bar>of_int n * 2 powi (k - 52)\<bar> < (2::rat) ^ 1024"
  shows "round64 x = Finite (of_int n * 2 powi (k - 52))"
proof -
  have q: "quantum x = 2 powi (k - 52)"
    using quantum_eq [OF assms(1,2)] assms(3) by (simp add: max_def)
  have "0 < \<bar>x\<bar>" using assms(1) zero_less_power_int [of "2::rat" k] by linarith
  then have "x \<noteq> 0" by simp
  then show ?thesis using assms(5) by (simp add: round64_def Let_def q assms(4))
qed

lemma round64_eval:
  assumes "2 powi k \<le> \<bar>x\<bar>" and "\<bar>x\<bar> < 2 powi (k + 1)" and "- 1022 \<le> k"
    and "of_int n - 1 / 2 < x / 2 powi (k - 52)" and "x / 2 powi (k - 52) < of_int n + 1 / 2"
    and "\<bar>of_int n * 2 powi (k - 52)\<bar> < (2::rat) ^ 1024"
  shows "round64 x = Finite (of_int n * 2 powi (k - 52))"
  using assms(1-3) round_half_even_unique [OF assms(4,5)] assms(6)
  by (rule round64_eval_significand)

text \<open>The powers of two up to \<open>2 ^ 1023\<close> and the least positive double are doubles.\<close>

lemma pow2_double: "k \<le> 1023 \<Longrightarrow> round64 (2 ^ k) = Finite (2 ^ k)"
proof -
  assume k: "k \<le> 1023"
  have lo: "(2::rat) powi (int k) \<le> \<bar>2 ^ k\<bar>" by simp
  have hi: "\<bar>(2::rat) ^ k\<bar> < 2 powi (int k + 1)"
    by (simp add: power_int_add)
  have q: "quantum (2 ^ k) = 2 powi (int k - 52)"
    using quantum_eq [OF lo hi] by (simp add: max_def)
  have "(2::rat) ^ k / 2 powi (int k - 52) = 2 powi (int k) / 2 powi (int k - 52)" by simp
  also have "\<dots> = 2 powi (int k - (int k - 52))"
    by (rule power_int_diff [symmetric]) simp
  also have "\<dots> = of_int (2 ^ 52)" by simp
  finally have "(2::rat) ^ k / quantum (2 ^ k) = of_int (2 ^ 52)" by (simp only: q)
  moreover have "\<bar>(2::rat) ^ k\<bar> < 2 ^ 1024"
  proof -
    have "(2::rat) ^ k < 2 ^ 1024" using k by (intro power_strict_increasing) simp_all
    then show ?thesis by (simp only: power_abs abs_numeral)
  qed
  ultimately show ?thesis by (rule round64_exact)
qed

lemma min_double: "round64 (1 / 2 ^ 1074) = Finite (1 / 2 ^ 1074)"
proof -
  have x: "(1::rat) / 2 ^ 1074 = 2 powi (- 1074)"
    using powi_neg [of 1074] by simp
  have lo: "(2::rat) powi (- 1074) \<le> \<bar>2 powi (- 1074)\<bar>" by simp
  have hi: "\<bar>(2::rat) powi (- 1074)\<bar> < 2 powi (- 1074 + 1)"
    using power_int_strict_increasing [of "- 1074" "- 1074 + 1" "2::rat"] by simp
  have q: "quantum (2 powi (- 1074)) = 2 powi (- 1074)"
    using quantum_eq [OF lo hi] by simp
  have "(2::rat) powi (- 1074) / quantum (2 powi (- 1074)) = of_int 1"
    unfolding q by simp
  moreover have "\<bar>(2::rat) powi (- 1074)\<bar> < 2 ^ 1024"
  proof -
    have "(2::rat) powi (- 1074) < 2 powi 1024"
      by (rule power_int_strict_increasing) simp_all
    then show ?thesis by simp
  qed
  ultimately have "round64 (2 powi (- 1074)) = Finite (2 powi (- 1074))"
    by (rule round64_exact)
  then show ?thesis by (simp only: x)
qed

section \<open>The y-scale\<close>

lemma plotHeight_val: "plotHeight = Finite 316"
  by (simp add: plotHeight_def js_sub_def height_def margin_top_def margin_bottom_def
      round64_numeral)

lemma baseline_val: "js_add margin_top plotHeight = Finite 348"
  by (simp add: plotHeight_val margin_top_def round64_numeral)

lemma yPos_unfold:
  "yPos M v = js_sub (Finite 348) (js_div (js_mul (Finite 316) v) (scale_divisor M))"
  by (simp add: yPos_def plotHeight_val margin_top_def round64_numeral)

lemma scale_divisor_Finite:
  "scale_divisor (Finite m) = (if 0 < m then Finite m else Finite 1)"
  by (simp add: scale_divisor_def)

lemma scale_divisor_nonzero: "scale_divisor M \<noteq> Finite 0"
  by (cases M) (simp_all add: scale_divisor_def)

text \<open>The value 0 is drawn on the baseline, whatever the maximum is.\<close>

lemma yPos_zero: "yPos M (Finite 0) = Finite 348"
proof -
  have "js_div (Finite 0) (scale_divisor M) = Finite 0"
    by (cases M) (simp_all add: scale_divisor_def round64_def)
  then show ?thesis
    by (simp add: yPos_unfold round64_def [of 0] js_sub_def round64_numeral)
qed

text \<open>
  A positive maximum whose product with the plot height is computed exactly is drawn on
  the top margin.
\<close>

lemma yPos_max_exact:
  assumes "0 < m" and "js_mul plotHeight (Finite m) = Finite (316 * m)"
  shows "yPos (Finite m) (Finite m) = Finite 32"
proof -
  have "js_div (Finite (316 * m)) (Finite m) = Finite 316"
    using assms(1) by (simp add: round64_numeral)
  then show ?thesis
    using assms
    by (simp add: yPos_def baseline_val js_sub_def scale_divisor_Finite round64_numeral)
qed

text \<open>The product is exact for every integer maximum of magnitude below \<open>2 ^ 44\<close>.\<close>

lemma js_mul_plotHeight_int:
  assumes "\<bar>k\<bar> < 2 ^ 44"
  shows "js_mul plotHeight (Finite (of_int k)) = Finite (316 * of_int k)"
proof -
  have "\<bar>316 * k\<bar> < 2 ^ 53" using assms by simp
  then have "round64 (of_int (316 * k)) = Finite (of_int (316 * k))" by (rule round64_int)
  then show ?thesis by (simp add: plotHeight_val)
qed

text \<open>
  C4, as it holds of the code: for a maximum strictly greater than 0 whose product with
  the plot height 316 is computed without rounding (every integer maximum below
  \<open>2 ^ 44\<close> is one, lemma \<open>js_mul_plotHeight_int\<close>), the y-scale sends the maximum to the
  top of the plot area (the top margin, 32) and 0 to the baseline (top margin plus plot
  height, 348).
\<close>

theorem yPos_endpoints:
  "0 < m \<Longrightarrow> js_mul plotHeight (Finite m) = Finite (316 * m) \<Longrightarrow>
     yPos (Finite m) (Finite m) = margin_top \<and>
     yPos (Finite m) (Finite 0) = js_add margin_top plotHeight"
  using yPos_max_exact [of m] yPos_zero [of "Finite m"] baseline_val
  by (simp add: margin_top_def)

theorem yPos_endpoints_witness:
  "(0::rat) < 212 \<and> js_mul plotHeight (Finite 212) = Finite (316 * 212) \<and>
   yPos (Finite 212) (Finite 212) = Finite 32 \<and> yPos (Finite 212) (Finite 0) = Finite 348"
proof -
  have h: "js_mul plotHeight (Finite 212) = Finite (316 * 212)"
    using js_mul_plotHeight_int [of 212] by simp
  show ?thesis
    using yPos_endpoints [of 212] h baseline_val by (simp add: margin_top_def)
qed

subsection \<open>Maxima that are not drawn on the top margin\<close>

text \<open>
  The double nearest to 0.9 is \<open>8106479329266893 / 2 ^ 53\<close>. With it as maximum and as
  value, the product \<^verbatim>\<open>plotHeight * val\<close> is rounded up, the quotient is the double after
  316, and the coordinate is the double before 32 (printed \<^verbatim>\<open>31.999999999999943\<close>).
\<close>

lemma nearest_to_nine_tenths:
  "round64 (9 / 10) = Finite (8106479329266893 / 9007199254740992)"
  using round64_eval [of "- 1" "9 / 10" 8106479329266893] by simp

lemma product_rounded:
  "round64 (316 * (8106479329266893 / 9007199254740992))
     = Finite (5003217711031911 / 17592186044416)"
  using round64_eval [of 8 "316 * (8106479329266893 / 9007199254740992)" 5003217711031911]
  by simp

lemma quotient_rounded:
  "round64 (5003217711031911 / 17592186044416 / (8106479329266893 / 9007199254740992))
     = Finite (5559130790035457 / 17592186044416)"
  using round64_eval
    [of 8 "5003217711031911 / 17592186044416 / (8106479329266893 / 9007199254740992)"
       5559130790035457]
  by simp

lemma difference_rounded:
  "round64 (348 - 5559130790035457 / 17592186044416)
     = Finite (562949953421311 / 17592186044416)"
  using round64_eval [of 4 "348 - 5559130790035457 / 17592186044416" 9007199254740976]
  by simp

lemma yPos_rounding:
  "yPos (Finite (8106479329266893 / 9007199254740992))
        (Finite (8106479329266893 / 9007199254740992))
     = Finite (562949953421311 / 17592186044416)"
  unfolding yPos_unfold
  using product_rounded quotient_rounded difference_rounded
  by (simp add: scale_divisor_Finite js_sub_def)

text \<open>A maximum so large that \<^verbatim>\<open>plotHeight * val\<close> overflows gives \<^verbatim>\<open>-Infinity\<close>.\<close>

lemma yPos_overflow:
  assumes "2 ^ 1024 \<le> 316 * m"
  shows "yPos (Finite m) (Finite m) = NegInfinity"
proof -
  have "(0::rat) < 2 ^ 1024" by simp
  with assms have m: "0 < m" by linarith
  with assms have "2 ^ 1024 \<le> \<bar>316 * m\<bar>" by simp
  then have p: "round64 (316 * m) = PosInfinity"
    using round64_overflow [of "316 * m"] m by simp
  show ?thesis
    unfolding yPos_unfold
    using m by (simp add: p scale_divisor_Finite infinity_of_def js_sub_def)
qed

lemma pow_1024_le_1020: "(2::rat) ^ 1024 \<le> 316 * 2 ^ 1020"
proof -
  have "(2::rat) ^ 1024 = 2 ^ 4 * 2 ^ 1020" by (simp only: power_add [symmetric]) simp
  also have "\<dots> \<le> 316 * 2 ^ 1020" by (intro mult_right_mono) simp_all
  finally show ?thesis .
qed

text \<open>
  C4 as stated, for every maximum strictly greater than 0, fails: at the double nearest
  to 0.9 the maximum is drawn at \<open>32 - 2 ^ -44\<close>, and at the double \<open>2 ^ 1020\<close> its
  coordinate is \<^verbatim>\<open>-Infinity\<close>; neither is the top margin.
\<close>

theorem yPos_endpoints_counterexample:
  "js_gt (Finite (8106479329266893 / 9007199254740992)) (Finite 0) \<and>
   round64 (8106479329266893 / 9007199254740992)
     = Finite (8106479329266893 / 9007199254740992) \<and>
   yPos (Finite (8106479329266893 / 9007199254740992))
        (Finite (8106479329266893 / 9007199254740992))
     = Finite (562949953421311 / 17592186044416) \<and>
   yPos (Finite (8106479329266893 / 9007199254740992))
        (Finite (8106479329266893 / 9007199254740992)) \<noteq> margin_top \<and>
   js_gt (Finite (2 ^ 1020)) (Finite 0) \<and>
   round64 (2 ^ 1020) = Finite (2 ^ 1020) \<and>
   yPos (Finite (2 ^ 1020)) (Finite (2 ^ 1020)) = NegInfinity \<and>
   yPos (Finite (2 ^ 1020)) (Finite (2 ^ 1020)) \<noteq> margin_top"
proof (intro conjI)
  show "js_gt (Finite (8106479329266893 / 9007199254740992)) (Finite 0)" by simp
  show "round64 (8106479329266893 / 9007199254740992)
          = Finite (8106479329266893 / 9007199254740992)"
    using round64_eval [of "- 1" "8106479329266893 / 9007199254740992" 8106479329266893]
    by simp
  show "yPos (Finite (8106479329266893 / 9007199254740992))
             (Finite (8106479329266893 / 9007199254740992))
          = Finite (562949953421311 / 17592186044416)"
    by (rule yPos_rounding)
  show "yPos (Finite (8106479329266893 / 9007199254740992))
             (Finite (8106479329266893 / 9007199254740992)) \<noteq> margin_top"
    unfolding yPos_rounding margin_top_def by simp
  show "js_gt (Finite (2 ^ 1020)) (Finite 0)"
    by (simp only: js_gt.simps zero_less_power zero_less_numeral)
  show "round64 (2 ^ 1020) = Finite (2 ^ 1020)" by (rule pow2_double) simp
  show "yPos (Finite (2 ^ 1020)) (Finite (2 ^ 1020)) = NegInfinity"
    using pow_1024_le_1020 by (rule yPos_overflow)
  show "yPos (Finite (2 ^ 1020)) (Finite (2 ^ 1020)) \<noteq> margin_top"
    unfolding yPos_overflow [OF pow_1024_le_1020] margin_top_def by simp
qed

subsection \<open>Division by zero and finite coordinates\<close>

lemma yPos_finite_divisor:
  assumes v: "\<bar>v\<bar> \<le> 2 ^ 1000" and c: "1 \<le> c"
  shows "\<exists>y. js_sub (Finite 348) (js_div (js_mul (Finite 316) (Finite v)) (Finite c))
               = Finite y"
proof -
  have "\<bar>316 * v\<bar> = 316 * \<bar>v\<bar>" by (simp add: abs_mult)
  also have "\<dots> \<le> 2 ^ 9 * 2 ^ 1000" using v by (intro mult_mono) simp_all
  also have "\<dots> = (2::rat) ^ 1009" by (simp only: power_add [symmetric]) simp
  finally have "\<bar>316 * v\<bar> \<le> 2 ^ 1009" .
  then obtain p where p: "round64 (316 * v) = Finite p" "\<bar>p\<bar> \<le> 2 ^ 1009"
    using round64_bound [of "316 * v" 1009] by auto
  have "\<bar>p / c\<bar> = \<bar>p\<bar> / c" using c by simp
  also have "\<dots> \<le> \<bar>p\<bar> / 1" using c by (intro divide_left_mono) simp_all
  finally have "\<bar>p / c\<bar> \<le> 2 ^ 1009" using p(2) by simp
  then obtain q where q: "round64 (p / c) = Finite q" "\<bar>q\<bar> \<le> 2 ^ 1009"
    using round64_bound [of "p / c" 1009] by auto
  have "(348::rat) \<le> 2 ^ 9" by simp
  also have "(2::rat) ^ 9 \<le> 2 ^ 1009" by (intro power_increasing) simp_all
  finally have "(348::rat) \<le> 2 ^ 1009" .
  then have "\<bar>348 - q\<bar> \<le> 2 ^ 1009 + 2 ^ 1009" using q(2) by linarith
  also have "(2::rat) ^ 1009 + 2 ^ 1009 = 2 ^ 1010"
    by (simp only: mult_2 [symmetric] power_Suc [symmetric]) simp
  finally have "\<bar>348 - q\<bar> \<le> 2 ^ 1010" .
  then obtain r where r: "round64 (348 - q) = Finite r"
    using round64_bound [of "348 - q" 1010] by auto
  have "c \<noteq> 0" using c by simp
  then show ?thesis by (simp add: js_sub_def p(1) q(1) r)
qed

lemma yPos_finite:
  assumes "\<bar>v\<bar> \<le> 2 ^ 1000"
    and "case M of Finite m \<Rightarrow> m \<le> 0 \<or> 1 \<le> m | _ \<Rightarrow> True"
  shows "\<exists>y. yPos M (Finite v) = Finite y"
proof (cases M)
  case (Finite m)
  show ?thesis
  proof (cases "0 < m")
    case True
    with assms(2) Finite have "1 \<le> m" by simp
    with assms(1) show ?thesis
      unfolding yPos_unfold Finite scale_divisor_Finite using True
      by (simp only: if_True yPos_finite_divisor)
  next
    case False
    with assms(1) show ?thesis
      unfolding yPos_unfold Finite scale_divisor_Finite
      by (simp only: if_False yPos_finite_divisor order_refl)
  qed
next
  case PosInfinity
  have "\<bar>316 * v\<bar> = 316 * \<bar>v\<bar>" by (simp add: abs_mult)
  also have "\<dots> \<le> 2 ^ 9 * 2 ^ 1000" using assms(1) by (intro mult_mono) simp_all
  also have "\<dots> = (2::rat) ^ 1009" by (simp only: power_add [symmetric]) simp
  finally have "\<bar>316 * v\<bar> \<le> 2 ^ 1009" .
  then obtain p where p: "round64 (316 * v) = Finite p"
    using round64_bound [of "316 * v" 1009] by auto
  show ?thesis
    unfolding yPos_unfold PosInfinity
    by (simp add: scale_divisor_def p js_sub_def round64_numeral)
next
  case NegInfinity
  then have d: "scale_divisor M = Finite 1" by (simp add: scale_divisor_def)
  show ?thesis
    unfolding yPos_unfold d by (rule yPos_finite_divisor [OF assms(1) order_refl])
next
  case NaN
  then have d: "scale_divisor M = Finite 1" by (simp add: scale_divisor_def)
  show ?thesis
    unfolding yPos_unfold d by (rule yPos_finite_divisor [OF assms(1) order_refl])
qed

text \<open>
  C5, as it holds of the code: for every maximum, 0, negative numbers and \<^verbatim>\<open>NaN\<close>
  included, the divisor of the y-scale is not zero, and it is 1 whenever the maximum is
  not greater than 0, so the y-scale never divides by zero. The coordinate is a finite
  number whenever the value is finite with magnitude at most \<open>2 ^ 1000\<close> and the maximum
  is not a finite number strictly between 0 and 1.
\<close>

theorem yPos_total:
  "scale_divisor M \<noteq> Finite 0 \<and>
   (\<not> js_gt M (Finite 0) \<longrightarrow> scale_divisor M = Finite 1) \<and>
   (\<bar>v\<bar> \<le> 2 ^ 1000 \<and> (case M of Finite m \<Rightarrow> m \<le> 0 \<or> 1 \<le> m | _ \<Rightarrow> True) \<longrightarrow>
      (\<exists>y. yPos M (Finite v) = Finite y))"
  using scale_divisor_nonzero [of M] yPos_finite [of v M]
  by (simp add: scale_divisor_def)

theorem yPos_total_witness:
  "\<not> js_gt (Finite 0) (Finite 0) \<and> scale_divisor (Finite 0) = Finite 1 \<and>
   \<bar>212 :: rat\<bar> \<le> 2 ^ 1000 \<and> yPos (Finite 0) (Finite 212) = Finite (- 66644)"
proof -
  have b: "\<bar>212 :: rat\<bar> \<le> 2 ^ 1000"
  proof -
    have "(212::rat) \<le> 2 ^ 8" by simp
    also have "(2::rat) ^ 8 \<le> 2 ^ 1000" by (intro power_increasing) simp_all
    finally show ?thesis by simp
  qed
  have v: "yPos (Finite 0) (Finite 212) = Finite (- 66644)"
    unfolding yPos_unfold
    by (simp add: scale_divisor_def js_sub_def round64_numeral round64_neg_numeral)
  from yPos_total [of "Finite 0" 212] b v show ?thesis by simp
qed

text \<open>A value so large that \<^verbatim>\<open>plotHeight * val\<close> overflows, under the maximum 1.\<close>

lemma yPos_overflow_val:
  assumes "2 ^ 1024 \<le> 316 * v"
  shows "yPos (Finite 1) (Finite v) = NegInfinity"
proof -
  have "(0::rat) < 2 ^ 1024" by simp
  with assms have v: "0 < v" by linarith
  with assms have "2 ^ 1024 \<le> \<bar>316 * v\<bar>" by simp
  then have p: "round64 (316 * v) = PosInfinity"
    using round64_overflow [of "316 * v"] v by simp
  show ?thesis
    unfolding yPos_unfold
    by (simp add: p scale_divisor_Finite infinity_of_def js_sub_def)
qed

text \<open>A positive maximum so small that the quotient overflows, at the value 1.\<close>

lemma yPos_overflow_quotient:
  assumes "0 < m" and "2 ^ 1024 \<le> 316 / m"
  shows "yPos (Finite m) (Finite 1) = NegInfinity"
proof -
  have "2 ^ 1024 \<le> \<bar>316 / m\<bar>" using assms by simp
  then have q: "round64 (316 / m) = PosInfinity"
    using round64_overflow [of "316 / m"] assms(1) by simp
  show ?thesis
    unfolding yPos_unfold
    using assms(1) by (simp add: q scale_divisor_Finite js_sub_def round64_numeral)
qed

lemma pow_1024_le_1023: "(2::rat) ^ 1024 \<le> 316 * 2 ^ 1023"
proof -
  have "(2::rat) ^ 1024 = 2 ^ 1 * 2 ^ 1023" by (simp only: power_add [symmetric]) simp
  also have "\<dots> \<le> 316 * 2 ^ 1023" by (intro mult_right_mono) simp_all
  finally show ?thesis .
qed

lemma pow_1024_le_quotient: "(2::rat) ^ 1024 \<le> 316 / (1 / 2 ^ 1074)"
proof -
  have "(2::rat) ^ 1024 \<le> 2 ^ 1074" by (intro power_increasing) simp_all
  also have "\<dots> \<le> 316 * 2 ^ 1074" by simp
  finally show ?thesis by simp
qed

text \<open>
  C5 as stated, a finite coordinate for every input value, fails: with the maximum 1
  the value \<open>2 ^ 1023\<close>, a double, has the coordinate \<^verbatim>\<open>-Infinity\<close>, and so has the value 1
  under the least positive double \<open>2 ^ -1074\<close> as maximum.
\<close>

theorem yPos_total_counterexample:
  "round64 (2 ^ 1023) = Finite (2 ^ 1023) \<and>
   yPos (Finite 1) (Finite (2 ^ 1023)) = NegInfinity \<and>
   round64 (1 / 2 ^ 1074) = Finite (1 / 2 ^ 1074) \<and>
   yPos (Finite (1 / 2 ^ 1074)) (Finite 1) = NegInfinity"
proof (intro conjI)
  show "round64 (2 ^ 1023) = Finite (2 ^ 1023)" by (rule pow2_double) simp
  show "yPos (Finite 1) (Finite (2 ^ 1023)) = NegInfinity"
    using pow_1024_le_1023 by (rule yPos_overflow_val)
  show "round64 (1 / 2 ^ 1074) = Finite (1 / 2 ^ 1074)" by (rule min_double)
  show "yPos (Finite (1 / 2 ^ 1074)) (Finite 1) = NegInfinity"
    by (rule yPos_overflow_quotient [OF _ pow_1024_le_quotient]) simp
qed

subsection \<open>The maxima and values that the chart is given\<close>

text \<open>
  Whatever the selection, \<^verbatim>\<open>App\<close> passes an integer between 1 and 212 as the maximum:
  the guard of \<^verbatim>\<open>yPos\<close> is not needed for it, the product with the plot height is exact,
  and the largest count of the selection is drawn on the top edge of the plot.
\<close>

lemma deaths_bounds: "e \<in> set overdoseData \<Longrightarrow> 65 \<le> deaths e \<and> deaths e \<le> 212"
proof -
  assume "e \<in> set overdoseData"
  then have "deaths e \<in> set (map deaths overdoseData)" by simp
  then show ?thesis unfolding overdoseData_deaths by auto
qed

lemma foldl_max_bounds:
  "lo \<le> d \<Longrightarrow> d \<le> hi \<Longrightarrow> \<forall>x \<in> set ds. lo \<le> x \<and> x \<le> hi \<Longrightarrow>
     lo \<le> foldl max d ds \<and> foldl max d ds \<le> (hi::int)"
  by (induction ds arbitrary: d) (simp_all add: max_def)

lemma maxValue_App_bounds: "1 \<le> maxValue_App S \<and> maxValue_App S \<le> 212"
proof (cases "map deaths (filtered S)")
  case Nil
  then show ?thesis by (simp add: maxValue_App_def)
next
  case (Cons d ds)
  have "\<forall>x \<in> set (map deaths (filtered S)). 65 \<le> x \<and> x \<le> 212"
    using deaths_bounds by (auto simp: filtered_def)
  with Cons have "65 \<le> d" "d \<le> 212" "\<forall>x \<in> set ds. 65 \<le> x \<and> x \<le> 212"
    by simp_all
  then have "65 \<le> foldl max d ds \<and> foldl max d ds \<le> 212"
    by (rule foldl_max_bounds)
  with Cons show ?thesis by (simp add: maxValue_App_def)
qed

lemma yPos_maxValue_App:
  "yPos (Finite (of_int (maxValue_App S))) (Finite (of_int (maxValue_App S))) = margin_top"
proof -
  have b: "1 \<le> maxValue_App S" "maxValue_App S \<le> 212"
    using maxValue_App_bounds [of S] by simp_all
  then have "\<bar>maxValue_App S\<bar> < 2 ^ 44" by simp
  then have "js_mul plotHeight (Finite (of_int (maxValue_App S)))
               = Finite (316 * of_int (maxValue_App S))"
    by (rule js_mul_plotHeight_int)
  moreover have "(0::rat) < of_int (maxValue_App S)" using b(1) by simp
  ultimately show ?thesis by (simp add: yPos_max_exact margin_top_def)
qed

text \<open>
  A count inside the plot: 65 under the maximum 212. The quotient \<open>20540 / 212\<close> is
  rounded, and the difference from 348 lies halfway between two doubles, where the one
  with the even significand is taken (printed \<^verbatim>\<open>251.1132075471698\<close>).
\<close>

lemma yPos_example:
  "yPos (Finite 212) (Finite 65) = Finite (4417630265379859 / 17592186044416)"
proof -
  have q: "round64 (20540 / 212) = Finite (6817801912307635 / 70368744177664)"
    using round64_eval [of 6 "20540 / 212" 6817801912307635] by simp
  have "round_half_even ((348 - 6817801912307635 / 70368744177664) / 2 powi (7 - 52))
          = 8835260530759718"
    using round_half_even_tie
      [of "(348 - 6817801912307635 / 70368744177664) / 2 powi (7 - 52)" 8835260530759718]
    by simp
  then have r: "round64 (348 - 6817801912307635 / 70368744177664)
                  = Finite (4417630265379859 / 17592186044416)"
    using round64_eval_significand
      [of 7 "348 - 6817801912307635 / 70368744177664" 8835260530759718]
    by simp
  show ?thesis
    unfolding yPos_unfold
    using q r by (simp add: scale_divisor_Finite js_sub_def round64_numeral)
qed

section \<open>Statistics\<close>

text \<open>
  C6: when the selection holds exactly the known drug names (in any order), the grand
  total is the sum of all the death counts of the literal series table.
\<close>

theorem grandTotal_full_selection:
  "set S = set drugs \<Longrightarrow> grandTotal S = sum_list (concat (map snd series))"
  using filtered_set_cong [of S drugs] grandTotal_drugs series_sum
  by (simp add: grandTotal_def)

theorem grandTotal_full_selection_witness:
  "set (rev drugs) = set drugs \<and> grandTotal (rev drugs) = 6640"
  using grandTotal_full_selection [of "rev drugs"] by (simp add: series_sum)

lemma Math_round_nearest: "\<bar>of_int (Math_round x) - x\<bar> \<le> 1 / 2"
  unfolding Math_round_def by linarith

lemma Math_round_series_sum:
  "Math_round (of_int (sum_list (concat (map snd series))) / 12) = 553"
  unfolding Math_round_def series_sum by (simp add: floor_eq_iff)

text \<open>
  C7: when the selection holds exactly the known drug names, the average per month is the
  sum of all death counts divided by 12 and rounded to the nearest integer: it is
  \<^verbatim>\<open>Math.round\<close> of the quotient, and at most one half away from it.
\<close>

theorem avgMonthly_full_selection:
  "set S = set drugs \<Longrightarrow>
     avgMonthly S = Math_round (of_int (sum_list (concat (map snd series))) / 12) \<and>
     \<bar>of_int (avgMonthly S) - (of_int (sum_list (concat (map snd series))) / 12 :: rat)\<bar>
       \<le> 1 / 2"
proof -
  assume "set S = set drugs"
  then have "grandTotal S = sum_list (concat (map snd series))"
    using filtered_set_cong [of S drugs] grandTotal_drugs series_sum
    by (simp add: grandTotal_def)
  then have eq: "avgMonthly S = Math_round (of_int (sum_list (concat (map snd series))) / 12)"
    by (simp add: avgMonthly_def length_months)
  show ?thesis unfolding eq using Math_round_nearest by simp
qed

theorem avgMonthly_full_selection_witness:
  "set (rev drugs) = set drugs \<and> avgMonthly (rev drugs) = 553"
  using avgMonthly_full_selection [of "rev drugs"]
  by (simp only: Math_round_series_sum set_rev simp_thms)

text \<open>
  C8: from any selection, "Select all" followed by "Clear" leaves no filtered row and a
  grand total of 0.
\<close>

theorem select_all_then_clear:
  "filtered (dispatch (dispatch S SelectAll) Clear) = [] \<and>
   grandTotal (dispatch (dispatch S SelectAll) Clear) = 0"
  by (simp add: filtered_def grandTotal_def reduce_deaths_def)

lemma dispatch_known:
  "set S \<subseteq> set drugs \<Longrightarrow> known_action a \<Longrightarrow> set (dispatch S a) \<subseteq> set drugs"
  by (cases a) (auto simp: handleToggle_set includes_set)

lemma foldl_dispatch_known:
  "set S \<subseteq> set drugs \<Longrightarrow> list_all known_action acts \<Longrightarrow>
     set (foldl dispatch S acts) \<subseteq> set drugs"
  by (induction acts arbitrary: S) (simp_all add: dispatch_known)

text \<open>
  C9: starting from the initial selection (all known drugs), after any sequence of
  toggles of known drugs, "Select all" and "Clear", the selection is a subset of the
  known drug names.
\<close>

theorem selection_subset_known:
  "list_all known_action acts \<Longrightarrow> set (run acts) \<subseteq> set drugs"
  by (simp add: run_def initialSelection_def foldl_dispatch_known)

theorem selection_subset_known_witness:
  "list_all known_action
     [Toggle ''Heroin'', Clear, Toggle ''Cocaine'', SelectAll, Toggle ''Fentanyl''] \<and>
   set (run [Toggle ''Heroin'', Clear, Toggle ''Cocaine'', SelectAll, Toggle ''Fentanyl''])
     \<subseteq> set drugs"
  using selection_subset_known
    [of "[Toggle ''Heroin'', Clear, Toggle ''Cocaine'', SelectAll, Toggle ''Fentanyl'']"]
  by (simp add: drugs_def series_def)

section \<open>Totals by month\<close>

lemma sum_list_indicator_absent:
  "x \<notin> set ms \<Longrightarrow> (\<Sum>m\<leftarrow>ms. if x = m then c else 0) = (0::int)"
  by (induction ms) auto

lemma sum_list_indicator:
  "distinct ms \<Longrightarrow> x \<in> set ms \<Longrightarrow> (\<Sum>m\<leftarrow>ms. if x = m then c else 0) = (c::int)"
  by (induction ms) (auto simp: sum_list_indicator_absent)

text \<open>
  Grouping rows by month loses nothing and counts nothing twice, as long as the months
  are pairwise different and every row has one of them.
\<close>

lemma sum_by_month:
  assumes "distinct ms" and "\<forall>e \<in> set xs. month e \<in> set ms"
  shows "(\<Sum>m\<leftarrow>ms. sum_list (map deaths (filter (\<lambda>e. month e = m) xs)))
           = sum_list (map deaths xs)"
  using assms(2)
proof (induction xs)
  case Nil
  show ?case by simp
next
  case (Cons e xs)
  have "(\<Sum>m\<leftarrow>ms. sum_list (map deaths (filter (\<lambda>e. month e = m) (e # xs))))
      = (\<Sum>m\<leftarrow>ms. (if month e = m then deaths e else 0)
                  + sum_list (map deaths (filter (\<lambda>e. month e = m) xs)))"
    by (rule arg_cong [where f = sum_list]) (rule map_cong, simp_all)
  also have "\<dots> = (\<Sum>m\<leftarrow>ms. if month e = m then deaths e else 0)
                 + (\<Sum>m\<leftarrow>ms. sum_list (map deaths (filter (\<lambda>e. month e = m) xs)))"
    by (simp add: sum_list_addf)
  also have "\<dots> = deaths e + sum_list (map deaths xs)"
    using Cons assms(1) by (simp add: sum_list_indicator)
  finally show ?case by simp
qed

text \<open>
  C10: for every selection, the grand total is the sum of the twelve per-month totals.
\<close>

theorem grandTotal_sum_totalsByMonth:
  "grandTotal S = sum_list (map total (totalsByMonth S))"
proof -
  have "\<forall>e \<in> set (filtered S). month e \<in> set months"
    by (simp add: filtered_def months_def month_in_monthOrder)
  then have "(\<Sum>m\<leftarrow>months. sum_list (map deaths (filter (\<lambda>e. month e = m) (filtered S))))
           = sum_list (map deaths (filtered S))"
    using distinct_monthOrder by (intro sum_by_month) (simp_all add: months_def)
  then show ?thesis
    by (simp add: grandTotal_def totalsByMonth_def reduce_deaths_sum comp_def)
qed

end
